theory Spec2Isabelle
  imports Main "HOL-Library.Product_Lexorder"
begin

section \<open>The icon pipeline of assets/generate_icons.py\<close>

text \<open>
  The script locates or draws a base image, resizes it to the sizes of \<open>SIZES\<close> and
  packs the per-size files into \<open>icon.ico\<close>. All pixel work is done by Pillow; the
  script owns the control flow, the paths and the arguments of the library calls. The
  model therefore keeps images symbolic (dimensions, mode, and a term that records how
  the pixels came about), keeps the directory of the script as a map from file names to
  files, and records every library and file-system call in a trace.
\<close>

subsection \<open>Images\<close>

type_synonym path = string
type_synonym box = "nat \<times> nat"
type_synonym rgb = "nat \<times> nat \<times> nat"

datatype resample = NEAREST | BOX | BILINEAR | HAMMING | BICUBIC | LANCZOS

text \<open>
  The drawing calls of \<open>create_simple_icon\<close>, with their arguments. Fill colours are the
  strings the source passes; the text of \<open>draw.text\<close> is a list of code points.
\<close>

datatype shape =
    RoundedRectangle "nat list" nat string
  | Rectangle "nat list" string
  | Polygon "(nat \<times> nat) list" string
  | Ellipse "nat list" string
  | Text "nat \<times> nat" "nat list" string

text \<open>
  How the pixels of an image came about: a fresh canvas, a canvas drawn on, a resample
  of other pixels to a box with the filter that was applied, or pixel data that was on
  disk before the run (told apart by a number).
\<close>

datatype picture =
    Blank rgb
  | Painted picture shape
  | Resampled picture box resample
  | Pixels nat

text \<open>Pillow's modes are strings (\<open>'RGB'\<close>, \<open>'RGBA'\<close>, \<open>'P'\<close>, ...).\<close>

record image =
  dims :: box
  mode :: string
  picture :: picture

definition has_alpha :: "image \<Rightarrow> bool" where
  "has_alpha im = (mode im \<in> {''RGBA'', ''LA'', ''PA'', ''RGBa'', ''La''})"

definition new_image :: "string \<Rightarrow> box \<Rightarrow> rgb \<Rightarrow> image" where
  "new_image m b c = \<lparr>dims = b, mode = m, picture = Blank c\<rparr>"

definition draw :: "shape \<Rightarrow> image \<Rightarrow> image" where
  "draw sh im = im\<lparr>picture := Painted (picture im) sh\<rparr>"

text \<open>
  \<open>Image.resize(box, filter)\<close>, as Pillow documents and implements it: an image that
  already has the requested dimensions is copied; otherwise the result is a resample to
  the box, in the mode of the source, and for the modes \<open>'1'\<close> and \<open>'P'\<close> the
  filter is always NEAREST, whatever filter the caller asked for.
\<close>

definition resize :: "image \<Rightarrow> box \<Rightarrow> resample \<Rightarrow> image" where
  "resize im b f =
     (if dims im = b then im
      else \<lparr>dims = b, mode = mode im,
             picture = Resampled (picture im) b
               (if mode im \<in> {''1'', ''P''} then NEAREST else f)\<rparr>)"

subsection \<open>The ICO writer\<close>

text \<open>
  \<open>im.save(path, format='ICO', sizes=...)\<close> with no \<open>append_images\<close>: Pillow walks
  \<open>sorted(set(sizes))\<close>, ignores every size that is wider or higher than \<open>im\<close> itself or
  than 256 (its documentation: "Any sizes bigger than the original size or 256 will be
  ignored"), embeds \<open>im\<close> as it is for its own size and a thumbnail of \<open>im\<close> for every
  other size that is left. Only \<open>im\<close> supplies pixels. A thumbnail keeps the aspect
  ratio of \<open>im\<close>, so its dimensions are not modelled; its mode is that of \<open>im\<close>.
\<close>

datatype ico_frame = Provided image | Thumbnail image box

fun frame_mode :: "ico_frame \<Rightarrow> string" where
  "frame_mode (Provided im) = mode im"
| "frame_mode (Thumbnail im b) = mode im"

definition ico_fits :: "image \<Rightarrow> box \<Rightarrow> bool" where
  "ico_fits im b =
     (\<not> (fst b > fst (dims im) \<or> snd b > snd (dims im) \<or> fst b > 256 \<or> snd b > 256))"

definition ico_frames :: "image \<Rightarrow> box list \<Rightarrow> ico_frame list" where
  "ico_frames im sizes =
     map (\<lambda>b. if dims im = b then Provided im else Thumbnail im b)
       (filter (ico_fits im) (sort (remdups sizes)))"

subsection \<open>The directory of the script\<close>

text \<open>
  A name in the directory holds a file that \<open>Image.open\<close> decodes to an image
  (\<open>Raster\<close> of that image, whatever the format of the file), the container that the ICO
  writer above produces, any other content, or a subdirectory. The script writes a
  container only to \<open>icon.ico\<close> and never opens that name, so the model opens
  \<open>Raster\<close> entries only; an ICO file that was put at a per-size name beforehand is
  a \<open>Raster\<close> of the image Pillow reads from it. A subdirectory is the one way a
  \<open>save\<close> fails here: permissions and full disks are not modelled.
\<close>

datatype entry = Raster image | Container "ico_frame list" | Undecodable | Directory

datatype error =
    FileNotFoundError path
  | IsADirectoryError path
  | UnidentifiedImageError path

text \<open>The calls the script makes, in the order it makes them.\<close>

datatype call =
    Chdir
  | Exists path
  | NewImage string box rgb
  | Draw shape
  | Open path
  | Save image path
  | Resize image box resample
  | SaveIco image path "box list"

text \<open>
  The lines the script prints. The texts are Chinese in the source:
  \<open>NeedPillow\<close> "error: Pillow must be installed", \<open>RunPipInstall\<close>
  "run: pip install Pillow", \<open>CreatingSimple\<close> "creating a simple icon...",
  \<open>NotFoundCreating\<close> "icon-256.png not found, creating a simple icon...",
  \<open>Created p\<close> "created p", \<open>UsingExisting p\<close> "using the existing icon: p",
  \<open>GeneratingSizes\<close> "generating PNGs of the sizes...", \<open>Wrote n\<close> "icon-n.png",
  \<open>GeneratingIco\<close> "generating the Windows ICO file...", \<open>WroteIco\<close> "icon.ico",
  and the four closing lines.
\<close>

datatype message =
    NeedPillow | RunPipInstall
  | CreatingSimple | NotFoundCreating | Created path | UsingExisting path
  | GeneratingSizes | Wrote nat
  | GeneratingIco | WroteIco
  | Finished | OutputDirectory | ListPngs | ListIco

record state =
  files :: "path \<rightharpoonup> entry"
  trace :: "call list"
  stdout :: "message list"

definition start :: "(path \<rightharpoonup> entry) \<Rightarrow> state" where
  "start fs = \<lparr>files = fs, trace = [], stdout = []\<rparr>"

definition emit :: "call \<Rightarrow> state \<Rightarrow> state" where
  "emit c s = s\<lparr>trace := trace s @ [c]\<rparr>"

definition print :: "message \<Rightarrow> state \<Rightarrow> state" where
  "print m s = s\<lparr>stdout := stdout s @ [m]\<rparr>"

text \<open>A call either raises, leaving the state it reached, or returns.\<close>

type_synonym 'a result = "(error \<times> state) + ('a \<times> state)"

definition path_exists :: "path \<Rightarrow> state \<Rightarrow> bool \<times> state" where
  "path_exists p s = (files s p \<noteq> None, emit (Exists p) s)"

definition image_open :: "path \<Rightarrow> state \<Rightarrow> image result" where
  "image_open p s =
     (let s1 = emit (Open p) s in
      case files s p of
        None \<Rightarrow> Inl (FileNotFoundError p, s1)
      | Some Directory \<Rightarrow> Inl (IsADirectoryError p, s1)
      | Some (Raster im) \<Rightarrow> Inr (im, s1)
      | Some _ \<Rightarrow> Inl (UnidentifiedImageError p, s1))"

definition image_save :: "image \<Rightarrow> path \<Rightarrow> state \<Rightarrow> unit result" where
  "image_save im p s =
     (let s1 = emit (Save im p) s in
      case files s p of
        Some Directory \<Rightarrow> Inl (IsADirectoryError p, s1)
      | _ \<Rightarrow> Inr ((), s1\<lparr>files := (files s1)(p \<mapsto> Raster im)\<rparr>))"

definition image_save_ico :: "image \<Rightarrow> path \<Rightarrow> box list \<Rightarrow> state \<Rightarrow> unit result" where
  "image_save_ico im p sizes s =
     (let s1 = emit (SaveIco im p sizes) s in
      case files s p of
        Some Directory \<Rightarrow> Inl (IsADirectoryError p, s1)
      | _ \<Rightarrow> Inr ((), s1\<lparr>files := (files s1)(p \<mapsto> Container (ico_frames im sizes))\<rparr>))"

definition image_resize :: "image \<Rightarrow> box \<Rightarrow> resample \<Rightarrow> state \<Rightarrow> image \<times> state" where
  "image_resize im b f s = (resize im b f, emit (Resize im b f) s)"

subsection \<open>Paths\<close>

text \<open>\<open>f"icon-{size}.png"\<close>: the decimal digits of the size between a prefix and a suffix.\<close>

definition digit :: "nat \<Rightarrow> char" where
  "digit d = ''0123456789'' ! d"

fun str_nat :: "nat \<Rightarrow> string" where
  "str_nat n = (if n < 10 then [digit n] else str_nat (n div 10) @ [digit (n mod 10)])"

definition png_path :: "nat \<Rightarrow> path" where
  "png_path n = ''icon-'' @ str_nat n @ ''.png''"

definition SIZES :: "nat list" where
  "SIZES = [16, 32, 48, 64, 128, 256]"

definition base_image_path :: path where
  "base_image_path = ''icon-256.png''"

definition ico_path :: path where
  "ico_path = ''icon.ico''"

subsection \<open>The script\<close>

text \<open>\<open>create_simple_icon\<close> (lines 21 to 42).\<close>

definition create_simple_icon :: "state \<Rightarrow> image \<times> state" where
  "create_simple_icon s0 =
     (let s1 = print CreatingSimple s0;
          img = new_image ''RGB'' (256, 256) (102, 126, 234);
          s2 = emit (NewImage ''RGB'' (256, 256) (102, 126, 234)) s1;
          sh1 = RoundedRectangle [40, 60, 216, 196] 16 ''white'';
          sh2 = Rectangle [80, 100, 176, 160] ''#fbbf24'';
          sh3 = Polygon [(80, 100), (110, 100), (120, 90), (150, 90), (150, 100)] ''#fbbf24'';
          sh4 = Ellipse [110, 120, 146, 156] ''#667eea'';
          sh5 = Text (120, 125) [0x1F3AC] ''white'';
          img1 = draw sh1 img; s3 = emit (Draw sh1) s2;
          img2 = draw sh2 img1; s4 = emit (Draw sh2) s3;
          img3 = draw sh3 img2; s5 = emit (Draw sh3) s4;
          img4 = draw sh4 img3; s6 = emit (Draw sh4) s5;
          img5 = draw sh5 img4; s7 = emit (Draw sh5) s6
      in (img5, s7))"

text \<open>Lines 48 to 57 of \<open>main\<close>: load the base image, or draw and save it.\<close>

definition acquire :: "state \<Rightarrow> image result" where
  "acquire s0 =
     (let (ex, s1) = path_exists base_image_path s0 in
      if \<not> ex then
        (let s2 = print NotFoundCreating s1;
             (base_img, s3) = create_simple_icon s2
         in case image_save base_img base_image_path s3 of
              Inl e \<Rightarrow> Inl e
            | Inr (u, s4) \<Rightarrow> Inr (base_img, print (Created base_image_path) s4))
      else
        image_open base_image_path (print (UsingExisting base_image_path) s1))"

text \<open>Lines 61 to 67: the resize loop, over the sizes that are left.\<close>

fun resize_loop :: "image \<Rightarrow> nat list \<Rightarrow> state \<Rightarrow> unit result" where
  "resize_loop base_img [] s = Inr ((), s)"
| "resize_loop base_img (n # rest) s =
     (if n = 256 then resize_loop base_img rest s
      else
        (let output_path = png_path n;
             (resized, s1) = image_resize base_img (n, n) LANCZOS s
         in case image_save resized output_path s1 of
              Inl e \<Rightarrow> Inl e
            | Inr (u, s2) \<Rightarrow> resize_loop base_img rest (print (Wrote n) s2)))"

text \<open>Lines 71 to 75: open every per-size file that exists, in the order of the sizes.\<close>

fun collect :: "nat list \<Rightarrow> image list \<Rightarrow> state \<Rightarrow> (image list) result" where
  "collect [] ico_images s = Inr (ico_images, s)"
| "collect (n # rest) ico_images s =
     (let img_path = png_path n;
          (ex, s1) = path_exists img_path s
      in if ex then
           (case image_open img_path s1 of
              Inl e \<Rightarrow> Inl e
            | Inr (im, s2) \<Rightarrow> collect rest (ico_images @ [im]) s2)
         else collect rest ico_images s1)"

text \<open>
  Lines 70 to 84: the packaging phase. The first collected image is the one that is
  saved; the others contribute their dimensions to \<open>sizes\<close> only.
\<close>

definition package :: "state \<Rightarrow> unit result" where
  "package s0 =
     (case collect SIZES [] (print GeneratingIco s0) of
        Inl e \<Rightarrow> Inl e
      | Inr (ico_images, s1) \<Rightarrow>
          (case ico_images of
             [] \<Rightarrow> Inr ((), s1)
           | first # others \<Rightarrow>
               (case image_save_ico first ico_path (map dims ico_images) s1 of
                  Inl e \<Rightarrow> Inl e
                | Inr (u, s2) \<Rightarrow> Inr ((), print WroteIco s2))))"

definition closing :: "state \<Rightarrow> state" where
  "closing s = print ListIco (print ListPngs (print OutputDirectory (print Finished s)))"

text \<open>Lines 45 to 67 of \<open>main\<close>: everything that happens before the packaging phase.\<close>

definition prepare :: "state \<Rightarrow> unit result" where
  "prepare s0 =
     (case acquire (emit Chdir s0) of
        Inl e \<Rightarrow> Inl e
      | Inr (base_img, s1) \<Rightarrow> resize_loop base_img SIZES (print GeneratingSizes s1))"

text \<open>Lines 70 to 89 of \<open>main\<close>: the packaging phase and the closing lines.\<close>

definition finish :: "state \<Rightarrow> unit result" where
  "finish s2 =
     (case package s2 of
        Inl e \<Rightarrow> Inl e
      | Inr (v, s3) \<Rightarrow> Inr ((), closing s3))"

text \<open>\<open>main\<close> (lines 44 to 89).\<close>

definition main :: "state \<Rightarrow> unit result" where
  "main s0 =
     (case prepare s0 of
        Inl e \<Rightarrow> Inl e
      | Inr (u, s2) \<Rightarrow> finish s2)"

text \<open>
  The state a call reached, whether it returned or raised, and the exit status of a
  process whose last call it was: 1 for an exception that nothing catches, 0 otherwise.
\<close>

definition reached :: "'a result \<Rightarrow> state" where
  "reached r = (case r of Inl (e, s) \<Rightarrow> s | Inr (x, s) \<Rightarrow> s)"

definition exit_code :: "'a result \<Rightarrow> nat" where
  "exit_code r = (case r of Inl e \<Rightarrow> 1 | Inr x \<Rightarrow> 0)"

text \<open>
  The module as a program (lines 11 to 16 and 91 to 92): without Pillow it prints two
  lines and exits with status 1; otherwise it runs \<open>main\<close>.
\<close>

record outcome =
  exit_status :: nat
  final :: state

definition script :: "bool \<Rightarrow> state \<Rightarrow> outcome" where
  "script pillow_installed s0 =
     (if \<not> pillow_installed then
        \<lparr>exit_status = 1, final = print RunPipInstall (print NeedPillow s0)\<rparr>
      else
        \<lparr>exit_status = exit_code (main s0), final = reached (main s0)\<rparr>)"

subsection \<open>Reading a run\<close>

text \<open>The image \<open>create_simple_icon\<close> returns; it does not depend on the state.\<close>

definition simple_icon :: image where
  "simple_icon = fst (create_simple_icon (start Map.empty))"

text \<open>The two calls the resize loop makes for one size, and the two the packaging phase
  makes for one per-size file that exists.\<close>

definition resize_calls :: "image \<Rightarrow> nat \<Rightarrow> call list" where
  "resize_calls b n = [Resize b (n, n) LANCZOS, Save (resize b (n, n) LANCZOS) (png_path n)]"

definition probe_calls :: "nat \<Rightarrow> call list" where
  "probe_calls n = [Exists (png_path n), Open (png_path n)]"

text \<open>The image of a size on disk once the resize loop has returned, from the base image.\<close>

definition variant :: "image \<Rightarrow> nat \<Rightarrow> image" where
  "variant b n = (if n = 256 then b else resize b (n, n) LANCZOS)"

text \<open>What a call returned, if it returned.\<close>

definition returned :: "'a result \<Rightarrow> 'a option" where
  "returned r = (case r of Inl (e, s) \<Rightarrow> None | Inr (x, s) \<Rightarrow> Some x)"

text \<open>An example directory: an icon of 512 by 512 pixels with an alpha channel is already there.\<close>

definition photo :: image where
  "photo = \<lparr>dims = (512, 512), mode = ''RGBA'', picture = Pixels 0\<rparr>"

definition photo_dir :: "path \<rightharpoonup> entry" where
  "photo_dir = [base_image_path \<mapsto> Raster photo]"



section \<open>Properties\<close>

subsection \<open>Paths\<close>

lemma str_nat_small: "n < 10 \<Longrightarrow> str_nat n = [digit n]"
  by (subst str_nat.simps) simp

lemma str_nat_big: "\<not> n < 10 \<Longrightarrow> str_nat n = str_nat (n div 10) @ [digit (n mod 10)]"
  by (subst str_nat.simps) simp

declare str_nat.simps [simp del]

lemma png_path_values:
  "png_path 16 = ''icon-16.png''" "png_path 32 = ''icon-32.png''"
  "png_path 48 = ''icon-48.png''" "png_path 64 = ''icon-64.png''"
  "png_path 128 = ''icon-128.png''" "png_path 256 = ''icon-256.png''"
  by (simp_all add: png_path_def digit_def str_nat_small str_nat_big)

lemma digit_inj: "d < 10 \<Longrightarrow> e < 10 \<Longrightarrow> digit d = digit e \<Longrightarrow> d = e"
  unfolding digit_def
  by (subst (asm) nth_eq_iff_index_eq) simp_all

lemma str_nat_not_Nil: "str_nat n \<noteq> []"
  by (cases "n < 10") (simp_all add: str_nat_small str_nat_big)

lemma str_nat_inj: "str_nat m = str_nat n \<Longrightarrow> m = n"
proof (induction m arbitrary: n rule: str_nat.induct)
  case (1 m)
  show ?case
  proof (cases "m < 10")
    case small_m: True
    show ?thesis
    proof (cases "n < 10")
      case True
      with small_m "1.prems" show ?thesis
        by (simp add: str_nat_small digit_inj)
    next
      case False
      with small_m "1.prems" show ?thesis
        by (simp add: str_nat_small str_nat_big str_nat_not_Nil str_nat_not_Nil [THEN not_sym])
    qed
  next
    case big_m: False
    show ?thesis
    proof (cases "n < 10")
      case True
      with big_m "1.prems" show ?thesis
        by (simp add: str_nat_small str_nat_big str_nat_not_Nil str_nat_not_Nil [THEN not_sym])
    next
      case False
      from big_m False "1.prems"
      have eq: "str_nat (m div 10) = str_nat (n div 10)" "digit (m mod 10) = digit (n mod 10)"
        by (simp_all add: str_nat_big)
      from "1.IH"[OF big_m eq(1)] have "m div 10 = n div 10" .
      moreover from eq(2) have "m mod 10 = n mod 10" by (simp add: digit_inj)
      ultimately show ?thesis by (metis div_mult_mod_eq)
    qed
  qed
qed

lemma png_path_inj: "png_path m = png_path n \<Longrightarrow> m = n"
  by (simp add: png_path_def str_nat_inj)

lemma reached_simps [simp]: "reached (Inl (e, s)) = s" "reached (Inr (x, s)) = s"
  by (simp_all add: reached_def)

lemma emit_simps [simp]:
  "files (emit c s) = files s" "trace (emit c s) = trace s @ [c]" "stdout (emit c s) = stdout s"
  by (simp_all add: emit_def)

lemma print_simps [simp]:
  "files (print m s) = files s" "trace (print m s) = trace s" "stdout (print m s) = stdout s @ [m]"
  by (simp_all add: print_def)

lemma closing_simps [simp]:
  "files (closing s) = files s" "trace (closing s) = trace s"
  "stdout (closing s) = stdout s @ [Finished, OutputDirectory, ListPngs, ListIco]"
  by (simp_all add: closing_def)

lemma path_exists_simps [simp]:
  "fst (path_exists p s) = (files s p \<noteq> None)" "snd (path_exists p s) = emit (Exists p) s"
  by (simp_all add: path_exists_def)

lemma image_resize_simps [simp]:
  "fst (image_resize im b f s) = resize im b f" "snd (image_resize im b f s) = emit (Resize im b f) s"
  by (simp_all add: image_resize_def)

lemma resize_simps [simp]:
  "dims (resize im b f) = b" "mode (resize im b f) = mode im"
  by (simp_all add: resize_def)


subsection \<open>open and save\<close>

lemma image_open_reached [simp]: "reached (image_open p s) = emit (Open p) s"
  by (simp add: image_open_def Let_def split: option.splits entry.splits)

lemma image_open_Raster: "files s p = Some (Raster im) \<Longrightarrow> image_open p s = Inr (im, emit (Open p) s)"
  by (simp add: image_open_def Let_def)

lemma image_open_Inr:
  "image_open p s = Inr (im, s') \<Longrightarrow> files s p = Some (Raster im) \<and> s' = emit (Open p) s"
  by (simp add: image_open_def Let_def split: option.splits entry.splits)

lemma image_save_reached [simp]:
  "trace (reached (image_save im p s)) = trace s @ [Save im p]"
  "stdout (reached (image_save im p s)) = stdout s"
  "files (reached (image_save im p s)) =
     (if files s p = Some Directory then files s else (files s)(p \<mapsto> Raster im))"
  by (simp_all add: image_save_def Let_def split: option.splits entry.splits)

lemma image_save_Inr: "image_save im p s = Inr (u, s') \<Longrightarrow> files s p \<noteq> Some Directory \<and> s' = reached (image_save im p s)"
  by (auto simp add: image_save_def Let_def split: option.splits entry.splits)

lemma image_save_Inl: "image_save im p s = Inl (e, s') \<Longrightarrow> files s p = Some Directory \<and> s' = reached (image_save im p s)"
  by (auto simp add: image_save_def Let_def split: option.splits entry.splits)

lemma image_save_ok:
  assumes "files s p \<noteq> Some Directory"
  shows "\<exists>s'. image_save im p s = Inr ((), s')
    \<and> files s' = (files s)(p \<mapsto> Raster im)
    \<and> trace s' = trace s @ [Save im p] \<and> stdout s' = stdout s"
  using assms by (auto simp add: image_save_def Let_def split: option.splits entry.splits)

lemma image_save_ico_reached [simp]:
  "trace (reached (image_save_ico im p sizes s)) = trace s @ [SaveIco im p sizes]"
  "stdout (reached (image_save_ico im p sizes s)) = stdout s"
  "files (reached (image_save_ico im p sizes s)) =
     (if files s p = Some Directory then files s else (files s)(p \<mapsto> Container (ico_frames im sizes)))"
  by (simp_all add: image_save_ico_def Let_def split: option.splits entry.splits)

lemma image_save_ico_Inr: "image_save_ico im p sizes s = Inr (u, s') \<Longrightarrow> files s p \<noteq> Some Directory \<and> s' = reached (image_save_ico im p sizes s)"
  by (auto simp add: image_save_ico_def Let_def split: option.splits entry.splits)

lemma image_save_ico_Inl: "image_save_ico im p sizes s = Inl (e, s') \<Longrightarrow> files s p = Some Directory \<and> s' = reached (image_save_ico im p sizes s)"
  by (auto simp add: image_save_ico_def Let_def split: option.splits entry.splits)

lemma image_save_ico_ok:
  assumes "files s p \<noteq> Some Directory"
  shows "\<exists>s'. image_save_ico im p sizes s = Inr ((), s')
    \<and> files s' = (files s)(p \<mapsto> Container (ico_frames im sizes))
    \<and> trace s' = trace s @ [SaveIco im p sizes] \<and> stdout s' = stdout s"
  using assms by (auto simp add: image_save_ico_def Let_def split: option.splits entry.splits)

subsection \<open>create_simple_icon\<close>

lemma create_simple_icon_image [simp]: "fst (create_simple_icon s) = simple_icon"
  by (simp add: simple_icon_def create_simple_icon_def Let_def)

lemma simple_icon_simps [simp]: "dims simple_icon = (256, 256)" "mode simple_icon = ''RGB''"
  by (simp_all add: simple_icon_def create_simple_icon_def Let_def draw_def new_image_def)

lemma create_simple_icon_state [simp]:
  "files (snd (create_simple_icon s)) = files s"
  "stdout (snd (create_simple_icon s)) = stdout s @ [CreatingSimple]"
  "trace (snd (create_simple_icon s)) = trace s @
     [NewImage ''RGB'' (256, 256) (102, 126, 234),
      Draw (RoundedRectangle [40, 60, 216, 196] 16 ''white''),
      Draw (Rectangle [80, 100, 176, 160] ''#fbbf24''),
      Draw (Polygon [(80, 100), (110, 100), (120, 90), (150, 90), (150, 100)] ''#fbbf24''),
      Draw (Ellipse [110, 120, 146, 156] ''#667eea''),
      Draw (Text (120, 125) [0x1F3AC] ''white'')]"
  by (simp_all add: create_simple_icon_def Let_def)

subsection \<open>acquire\<close>

lemma acquire_absent:
  assumes "files s base_image_path = None"
  shows "\<exists>s'. acquire s = Inr (simple_icon, s')
          \<and> files s' = (files s)(base_image_path \<mapsto> Raster simple_icon)
          \<and> trace s' = trace s @
              [Exists base_image_path,
               NewImage ''RGB'' (256, 256) (102, 126, 234),
               Draw (RoundedRectangle [40, 60, 216, 196] 16 ''white''),
               Draw (Rectangle [80, 100, 176, 160] ''#fbbf24''),
               Draw (Polygon [(80, 100), (110, 100), (120, 90), (150, 90), (150, 100)] ''#fbbf24''),
               Draw (Ellipse [110, 120, 146, 156] ''#667eea''),
               Draw (Text (120, 125) [0x1F3AC] ''white''),
               Save simple_icon base_image_path]
          \<and> stdout s' = stdout s @ [NotFoundCreating, CreatingSimple, Created base_image_path]"
proof -
  let ?s3 = "snd (create_simple_icon (print NotFoundCreating (emit (Exists base_image_path) s)))"
  have free: "files ?s3 base_image_path \<noteq> Some Directory"
    using assms by simp
  from image_save_ok [OF free, of simple_icon] obtain s4 where
    saved: "image_save simple_icon base_image_path ?s3 = Inr ((), s4)"
    and s4: "files s4 = (files ?s3)(base_image_path \<mapsto> Raster simple_icon)"
      "trace s4 = trace ?s3 @ [Save simple_icon base_image_path]" "stdout s4 = stdout ?s3"
    by blast
  have "acquire s = Inr (simple_icon, print (Created base_image_path) s4)"
    using assms saved by (simp add: acquire_def Let_def split_def)
  with s4 show ?thesis by simp
qed

lemma acquire_present:
  assumes "files s base_image_path \<noteq> None"
  shows "acquire s = image_open base_image_path
           (print (UsingExisting base_image_path) (emit (Exists base_image_path) s))"
  using assms by (simp add: acquire_def Let_def split_def)

lemma acquire_present_reached:
  assumes "files s base_image_path \<noteq> None"
  shows "files (reached (acquire s)) = files s"
    and "trace (reached (acquire s)) = trace s @ [Exists base_image_path, Open base_image_path]"
    and "stdout (reached (acquire s)) = stdout s @ [UsingExisting base_image_path]"
  using assms by (simp_all add: acquire_present)

lemma acquire_present_Inr:
  assumes "files s base_image_path \<noteq> None" and "acquire s = Inr (b, s')"
  shows "files s base_image_path = Some (Raster b)" and "s' = reached (acquire s)"
  using assms by (auto simp add: acquire_present dest: image_open_Inr)

lemma acquire_Raster:
  assumes "files s base_image_path = Some (Raster im)"
  shows "acquire s = Inr (im, reached (acquire s))"
  using assms by (simp add: acquire_present image_open_Raster)

subsection \<open>The resize loop\<close>

lemma resize_loop_step:
  assumes "n \<noteq> 256"
  shows "resize_loop b (n # rest) s =
    (case image_save (resize b (n, n) LANCZOS) (png_path n) (emit (Resize b (n, n) LANCZOS) s) of
       Inl e \<Rightarrow> Inl e
     | Inr (u, s2) \<Rightarrow> resize_loop b rest (print (Wrote n) s2))"
  using assms by (simp add: Let_def split_def)

lemma resize_loop_skip: "resize_loop b (256 # rest) s = resize_loop b rest s"
  by simp

declare resize_loop.simps(2) [simp del]


lemma resize_loop_stdout:
  "resize_loop b ns s = Inr (u, s') \<Longrightarrow>
     stdout s' = stdout s @ map Wrote (filter (\<lambda>n. n \<noteq> 256) ns)"
proof (induction ns arbitrary: s)
  case Nil
  then show ?case by simp
next
  case (Cons n rest)
  show ?case
  proof (cases "n = 256")
    case True
    with Cons show ?thesis by (simp add: resize_loop_skip)
  next
    case False
    let ?saved = "image_save (resize b (n, n) LANCZOS) (png_path n) (emit (Resize b (n, n) LANCZOS) s)"
    from Cons.prems False obtain v s2 where
      saved: "?saved = Inr (v, s2)" and rest: "resize_loop b rest (print (Wrote n) s2) = Inr (u, s')"
      by (auto simp add: resize_loop_step split: sum.splits)
    from image_save_Inr [OF saved] have "stdout s2 = stdout s" by simp
    with Cons.IH [OF rest] False show ?thesis by simp
  qed
qed

lemma resize_loop_calls:
  "set (trace (reached (resize_loop b ns s))) \<subseteq>
     set (trace s) \<union> (\<Union>n \<in> set ns - {256}. set (resize_calls b n))"
proof (induction ns arbitrary: s)
  case Nil
  then show ?case by simp
next
  case (Cons n rest)
  show ?case
  proof (cases "n = 256")
    case True
    with Cons.IH [of s] show ?thesis by (auto simp add: resize_loop_skip)
  next
    case False
    let ?saved = "image_save (resize b (n, n) LANCZOS) (png_path n) (emit (Resize b (n, n) LANCZOS) s)"
    have here: "trace (reached ?saved) = trace s @ resize_calls b n"
      by (simp add: resize_calls_def)
    show ?thesis
    proof (cases ?saved)
      case (Inl a)
      then obtain e s1 where "?saved = Inl (e, s1)" by (cases a) simp
      with here False show ?thesis by (auto simp add: resize_loop_step)
    next
      case (Inr a)
      then obtain v s2 where saved: "?saved = Inr (v, s2)" by (cases a) simp
      with here have "trace (print (Wrote n) s2) = trace s @ resize_calls b n" by simp
      with Cons.IH [of "print (Wrote n) s2"] saved False show ?thesis
        by (auto simp add: resize_loop_step)
    qed
  qed
qed

lemma resize_loop_other_files:
  "\<forall>n \<in> set ns. n \<noteq> 256 \<longrightarrow> png_path n \<noteq> p \<Longrightarrow>
     files (reached (resize_loop b ns s)) p = files s p"
proof (induction ns arbitrary: s)
  case Nil
  then show ?case by simp
next
  case (Cons n rest)
  show ?case
  proof (cases "n = 256")
    case True
    with Cons show ?thesis by (simp add: resize_loop_skip)
  next
    case False
    let ?saved = "image_save (resize b (n, n) LANCZOS) (png_path n) (emit (Resize b (n, n) LANCZOS) s)"
    from Cons.prems False have p: "png_path n \<noteq> p" by simp
    then have here: "files (reached ?saved) p = files s p" by simp
    show ?thesis
    proof (cases ?saved)
      case (Inl a)
      then obtain e s1 where "?saved = Inl (e, s1)" by (cases a) simp
      with here False show ?thesis by (auto simp add: resize_loop_step)
    next
      case (Inr a)
      then obtain v s2 where saved: "?saved = Inr (v, s2)" by (cases a) simp
      with here have "files (print (Wrote n) s2) p = files s p" by simp
      with Cons.IH [of "print (Wrote n) s2"] Cons.prems saved False show ?thesis
        by (simp add: resize_loop_step)
    qed
  qed
qed

lemma resize_loop_files:
  "resize_loop b ns s = Inr (u, s') \<Longrightarrow> n \<in> set ns \<Longrightarrow> n \<noteq> 256 \<Longrightarrow>
     files s' (png_path n) = Some (Raster (resize b (n, n) LANCZOS))"
proof (induction ns arbitrary: s)
  case Nil
  then show ?case by simp
next
  case (Cons m rest)
  show ?case
  proof (cases "m = 256")
    case True
    with Cons show ?thesis by (simp add: resize_loop_skip)
  next
    case False
    let ?saved = "image_save (resize b (m, m) LANCZOS) (png_path m) (emit (Resize b (m, m) LANCZOS) s)"
    from Cons.prems False obtain v s2 where
      saved: "?saved = Inr (v, s2)" and rest: "resize_loop b rest (print (Wrote m) s2) = Inr (u, s')"
      by (auto simp add: resize_loop_step split: sum.splits)
    show ?thesis
    proof (cases "n \<in> set rest")
      case True
      from Cons.IH [OF rest True Cons.prems(3)] show ?thesis .
    next
      case False
      with Cons.prems have nm: "n = m" by simp
      from False have "\<forall>k \<in> set rest. k \<noteq> 256 \<longrightarrow> png_path k \<noteq> png_path n"
        by (auto dest: png_path_inj)
      from resize_loop_other_files [OF this, of b "print (Wrote m) s2"] rest
      have "files s' (png_path n) = files s2 (png_path n)" by simp
      also from image_save_Inr [OF saved] nm
      have "\<dots> = Some (Raster (resize b (n, n) LANCZOS))" by simp
      finally show ?thesis .
    qed
  qed
qed

lemma resize_loop_ok:
  "\<forall>n \<in> set ns. n \<noteq> 256 \<longrightarrow> files s (png_path n) \<noteq> Some Directory \<Longrightarrow>
     \<exists>s'. resize_loop b ns s = Inr ((), s')"
proof (induction ns arbitrary: s)
  case Nil
  then show ?case by simp
next
  case (Cons m rest)
  show ?case
  proof (cases "m = 256")
    case True
    with Cons show ?thesis by (simp add: resize_loop_skip)
  next
    case False
    let ?s1 = "emit (Resize b (m, m) LANCZOS) s"
    from Cons.prems False have "files ?s1 (png_path m) \<noteq> Some Directory" by simp
    from image_save_ok [OF this, of "resize b (m, m) LANCZOS"] obtain s2 where
      saved: "image_save (resize b (m, m) LANCZOS) (png_path m) ?s1 = Inr ((), s2)"
      and s2: "files s2 = (files ?s1)(png_path m \<mapsto> Raster (resize b (m, m) LANCZOS))"
      by blast
    from Cons.prems s2
    have "\<forall>n \<in> set rest. n \<noteq> 256 \<longrightarrow> files (print (Wrote m) s2) (png_path n) \<noteq> Some Directory"
      by simp
    from Cons.IH [OF this] saved False show ?thesis by (simp add: resize_loop_step)
  qed
qed

subsection \<open>Collecting the per-size files\<close>

lemma collect_absent:
  "files s (png_path n) = None \<Longrightarrow>
     collect (n # rest) acc s = collect rest acc (emit (Exists (png_path n)) s)"
  by (simp add: Let_def split_def)

lemma collect_present:
  "files s (png_path n) \<noteq> None \<Longrightarrow>
     collect (n # rest) acc s =
       (case image_open (png_path n) (emit (Exists (png_path n)) s) of
          Inl e \<Rightarrow> Inl e
        | Inr (im, s2) \<Rightarrow> collect rest (acc @ [im]) s2)"
  by (simp add: Let_def split_def)

declare collect.simps(2) [simp del]

lemma collect_files [simp]: "files (reached (collect ns acc s)) = files s"
proof (induction ns arbitrary: acc s)
  case Nil
  show ?case by simp
next
  case (Cons n rest)
  show ?case
  proof (cases "files s (png_path n)")
    case None
    with Cons.IH [of acc "emit (Exists (png_path n)) s"] show ?thesis
      by (simp add: collect_absent)
  next
    case (Some e)
    let ?opened = "image_open (png_path n) (emit (Exists (png_path n)) s)"
    have here: "files (reached ?opened) = files s" by simp
    show ?thesis
    proof (cases ?opened)
      case (Inl a)
      then obtain err s1 where "?opened = Inl (err, s1)" by (cases a) simp
      with here Some show ?thesis by (auto simp add: collect_present)
    next
      case (Inr a)
      then obtain im s2 where opened: "?opened = Inr (im, s2)" by (cases a) simp
      with here have "files s2 = files s" by simp
      with Cons.IH [of "acc @ [im]" s2] opened Some show ?thesis
        by (simp add: collect_present)
    qed
  qed
qed

lemma collect_calls:
  "set (trace (reached (collect ns acc s))) \<subseteq>
     set (trace s) \<union> (\<Union>n \<in> set ns. set (probe_calls n))"
proof (induction ns arbitrary: acc s)
  case Nil
  show ?case by simp
next
  case (Cons n rest)
  show ?case
  proof (cases "files s (png_path n)")
    case None
    with Cons.IH [of acc "emit (Exists (png_path n)) s"] show ?thesis
      by (auto simp add: collect_absent probe_calls_def)
  next
    case (Some e)
    let ?opened = "image_open (png_path n) (emit (Exists (png_path n)) s)"
    have here: "trace (reached ?opened) = trace s @ probe_calls n"
      by (simp add: probe_calls_def)
    show ?thesis
    proof (cases ?opened)
      case (Inl a)
      then obtain err s1 where "?opened = Inl (err, s1)" by (cases a) simp
      with here Some show ?thesis by (auto simp add: collect_present)
    next
      case (Inr a)
      then obtain im s2 where opened: "?opened = Inr (im, s2)" by (cases a) simp
      with here have "trace s2 = trace s @ probe_calls n" by simp
      with Cons.IH [of "acc @ [im]" s2] opened Some show ?thesis
        by (auto simp add: collect_present)
    qed
  qed
qed

lemma collect_none:
  "\<forall>n \<in> set ns. files s (png_path n) = None \<Longrightarrow>
     \<exists>s'. collect ns acc s = Inr (acc, s') \<and> files s' = files s
        \<and> trace s' = trace s @ map (\<lambda>n. Exists (png_path n)) ns \<and> stdout s' = stdout s"
proof (induction ns arbitrary: s)
  case Nil
  show ?case by simp
next
  case (Cons n rest)
  from Cons.prems
  have "\<forall>k \<in> set rest. files (emit (Exists (png_path n)) s) (png_path k) = None" by simp
  from Cons.IH [OF this] Cons.prems show ?case
    by (auto simp add: collect_absent)
qed

lemma collect_all:
  "\<forall>n \<in> set ns. files s (png_path n) = Some (Raster (img n)) \<Longrightarrow>
     \<exists>s'. collect ns acc s = Inr (acc @ map img ns, s') \<and> files s' = files s
        \<and> trace s' = trace s @ concat (map probe_calls ns) \<and> stdout s' = stdout s"
proof (induction ns arbitrary: acc s)
  case Nil
  show ?case by simp
next
  case (Cons n rest)
  let ?s1 = "emit (Exists (png_path n)) s"
  from Cons.prems have here: "files ?s1 (png_path n) = Some (Raster (img n))" by simp
  from Cons.prems
  have "\<forall>k \<in> set rest. files (emit (Open (png_path n)) ?s1) (png_path k) = Some (Raster (img k))"
    by simp
  from Cons.IH [OF this, of "acc @ [img n]"] Cons.prems image_open_Raster [OF here]
  show ?case
    by (auto simp add: collect_present probe_calls_def)
qed

subsection \<open>Packaging\<close>

lemma package_none:
  assumes "\<forall>n \<in> set SIZES. files s (png_path n) = None"
  shows "\<exists>s'. package s = Inr ((), s') \<and> files s' = files s
        \<and> trace s' = trace s @ map (\<lambda>n. Exists (png_path n)) SIZES
        \<and> stdout s' = stdout s @ [GeneratingIco]"
proof -
  from assms have "\<forall>n \<in> set SIZES. files (print GeneratingIco s) (png_path n) = None" by simp
  from collect_none [OF this, of "[]"] show ?thesis
    by (auto simp add: package_def)
qed

lemma package_all:
  assumes "\<forall>n \<in> set SIZES. files s (png_path n) = Some (Raster (img n))"
    and "files s ico_path \<noteq> Some Directory"
  shows "\<exists>s'. package s = Inr ((), s')
        \<and> files s' = (files s)(ico_path \<mapsto> Container (ico_frames (img 16) (map (\<lambda>n. dims (img n)) SIZES)))
        \<and> trace s' = trace s @ concat (map probe_calls SIZES)
              @ [SaveIco (img 16) ico_path (map (\<lambda>n. dims (img n)) SIZES)]
        \<and> stdout s' = stdout s @ [GeneratingIco, WroteIco]"
proof -
  from assms(1)
  have "\<forall>n \<in> set SIZES. files (print GeneratingIco s) (png_path n) = Some (Raster (img n))" by simp
  from collect_all [OF this, of "[]"] obtain s1 where
    collected: "collect SIZES [] (print GeneratingIco s) = Inr (map img SIZES, s1)"
    and s1: "files s1 = files s" "trace s1 = trace s @ concat (map probe_calls SIZES)"
      "stdout s1 = stdout s @ [GeneratingIco]"
    by auto
  from assms(2) s1 have "files s1 ico_path \<noteq> Some Directory" by simp
  from image_save_ico_ok [OF this, of "img 16" "map (\<lambda>n. dims (img n)) SIZES"] obtain s2 where
    saved: "image_save_ico (img 16) ico_path (map (\<lambda>n. dims (img n)) SIZES) s1 = Inr ((), s2)"
    and s2: "files s2 = (files s1)(ico_path \<mapsto> Container (ico_frames (img 16) (map (\<lambda>n. dims (img n)) SIZES)))"
      "trace s2 = trace s1 @ [SaveIco (img 16) ico_path (map (\<lambda>n. dims (img n)) SIZES)]"
      "stdout s2 = stdout s1"
    by blast
  have "package s = Inr ((), print WroteIco s2)"
    using collected saved by (simp add: package_def SIZES_def comp_def)
  with s1 s2 show ?thesis by simp
qed

lemma package_reached:
  "reached (package s) = reached (collect SIZES [] (print GeneratingIco s))
   \<or> (\<exists>im sizes.
        files (reached (package s)) =
          files (reached (image_save_ico im ico_path sizes (reached (collect SIZES [] (print GeneratingIco s)))))
        \<and> trace (reached (package s)) =
          trace (reached (collect SIZES [] (print GeneratingIco s))) @ [SaveIco im ico_path sizes])"
proof (cases "collect SIZES [] (print GeneratingIco s)")
  case (Inl a)
  then obtain e s1 where "collect SIZES [] (print GeneratingIco s) = Inl (e, s1)" by (cases a) simp
  then show ?thesis by (simp add: package_def)
next
  case (Inr a)
  then obtain ims s1 where collected: "collect SIZES [] (print GeneratingIco s) = Inr (ims, s1)"
    by (cases a) simp
  show ?thesis
  proof (cases ims)
    case Nil
    with collected show ?thesis by (simp add: package_def)
  next
    case (Cons first others)
    let ?saved = "image_save_ico first ico_path (map dims ims) s1"
    have r: "trace (reached ?saved) = trace s1 @ [SaveIco first ico_path (map dims ims)]"
      by simp
    have "files (reached (package s)) = files (reached ?saved)
        \<and> trace (reached (package s)) = trace s1 @ [SaveIco first ico_path (map dims ims)]"
    proof (cases ?saved)
      case (Inl b)
      then obtain e s2 where eq: "?saved = Inl (e, s2)" by (cases b) simp
      have "reached (package s) = s2"
        using collected Cons eq by (simp add: package_def)
      with r [unfolded eq] show ?thesis by (simp add: eq)
    next
      case (Inr b)
      then obtain v s2 where eq: "?saved = Inr (v, s2)" by (cases b) simp
      have "reached (package s) = print WroteIco s2"
        using collected Cons eq by (simp add: package_def)
      with r [unfolded eq] show ?thesis by (simp add: eq)
    qed
    with collected show ?thesis by auto
  qed
qed

lemma package_calls:
  assumes "c \<in> set (trace (reached (package s)))"
  shows "c \<in> set (trace s) \<or> (\<exists>n \<in> set SIZES. c \<in> set (probe_calls n))
     \<or> (\<exists>im sizes. c = SaveIco im ico_path sizes)"
proof -
  let ?collected = "reached (collect SIZES [] (print GeneratingIco s))"
  have sub: "set (trace ?collected) \<subseteq> set (trace s) \<union> (\<Union>n \<in> set SIZES. set (probe_calls n))"
    using collect_calls [of SIZES "[]" "print GeneratingIco s"] by simp
  from package_reached [of s] assms
  have "c \<in> set (trace ?collected) \<or> (\<exists>im sizes. c = SaveIco im ico_path sizes)"
    by auto
  with sub show ?thesis by blast
qed

lemma package_other_files: "p \<noteq> ico_path \<Longrightarrow> files (reached (package s)) p = files s p"
  using package_reached [of s] by auto

subsection \<open>The phases in sequence\<close>

lemma base_image_path_png: "base_image_path = png_path 256"
  by (simp add: base_image_path_def png_path_values)

lemma ico_path_not_png: "png_path n \<noteq> ico_path"
  by (simp add: png_path_def ico_path_def)

lemma prepare_Inr:
  assumes "prepare s = Inr (u, s2)"
  obtains b s1 where "acquire (emit Chdir s) = Inr (b, s1)"
    and "resize_loop b SIZES (print GeneratingSizes s1) = Inr (u, s2)"
  using assms by (auto simp add: prepare_def split: sum.splits)

lemma prepare_reached:
  "reached (prepare s) = reached (acquire (emit Chdir s))
   \<or> (\<exists>b s1. acquire (emit Chdir s) = Inr (b, s1)
        \<and> reached (prepare s) = reached (resize_loop b SIZES (print GeneratingSizes s1)))"
  by (auto simp add: prepare_def split: sum.splits)

lemma main_Inr:
  assumes "main s = Inr (u, s')"
  obtains v s2 w s3 where "prepare s = Inr (v, s2)" and "package s2 = Inr (w, s3)"
    and "s' = closing s3"
  using assms by (auto simp add: main_def finish_def split: sum.splits)

lemma main_reached:
  "reached (main s) = reached (prepare s)
   \<or> (\<exists>u s2. prepare s = Inr (u, s2)
        \<and> (reached (main s) = reached (package s2)
           \<or> reached (main s) = closing (reached (package s2))))"
  by (auto simp add: main_def finish_def split: sum.splits)

lemma acquire_trace:
  "trace (reached (acquire s)) = trace s @
     (if files s base_image_path = None then
        [Exists base_image_path,
         NewImage ''RGB'' (256, 256) (102, 126, 234),
         Draw (RoundedRectangle [40, 60, 216, 196] 16 ''white''),
         Draw (Rectangle [80, 100, 176, 160] ''#fbbf24''),
         Draw (Polygon [(80, 100), (110, 100), (120, 90), (150, 90), (150, 100)] ''#fbbf24''),
         Draw (Ellipse [110, 120, 146, 156] ''#667eea''),
         Draw (Text (120, 125) [0x1F3AC] ''white''),
         Save simple_icon base_image_path]
      else [Exists base_image_path, Open base_image_path])"
proof (cases "files s base_image_path = None")
  case True
  from acquire_absent [OF True] obtain s' where "acquire s = Inr (simple_icon, s')"
    and "trace s' = trace s @
        [Exists base_image_path,
         NewImage ''RGB'' (256, 256) (102, 126, 234),
         Draw (RoundedRectangle [40, 60, 216, 196] 16 ''white''),
         Draw (Rectangle [80, 100, 176, 160] ''#fbbf24''),
         Draw (Polygon [(80, 100), (110, 100), (120, 90), (150, 90), (150, 100)] ''#fbbf24''),
         Draw (Ellipse [110, 120, 146, 156] ''#667eea''),
         Draw (Text (120, 125) [0x1F3AC] ''white''),
         Save simple_icon base_image_path]"
    by blast
  with True show ?thesis by simp
next
  case False
  with acquire_present_reached(2) [OF False] show ?thesis by (simp add: False)
qed

lemma acquire_files:
  "files (reached (acquire s)) =
     (if files s base_image_path = None then (files s)(base_image_path \<mapsto> Raster simple_icon)
      else files s)"
proof (cases "files s base_image_path = None")
  case True
  from acquire_absent [OF True] obtain s' where "acquire s = Inr (simple_icon, s')"
    and "files s' = (files s)(base_image_path \<mapsto> Raster simple_icon)"
    by blast
  with True show ?thesis by simp
next
  case False
  with acquire_present_reached(1) [OF False] show ?thesis by (simp add: False)
qed

lemma acquire_Inr:
  assumes "acquire s = Inr (b, s')"
  shows "files s' base_image_path = Some (Raster b)"
    and "files s base_image_path = None \<Longrightarrow> b = simple_icon"
    and "files s base_image_path \<noteq> None \<Longrightarrow> files s base_image_path = Some (Raster b)"
proof -
  show absent: "b = simple_icon" if "files s base_image_path = None"
    using acquire_absent [OF that] assms by auto
  show present: "files s base_image_path = Some (Raster b)" if "files s base_image_path \<noteq> None"
    using acquire_present_Inr(1) [OF that assms] .
  have "files (reached (acquire s)) base_image_path = Some (Raster b)"
    using absent present by (auto simp add: acquire_files)
  then show "files s' base_image_path = Some (Raster b)"
    by (simp add: assms)
qed

lemma prepare_calls:
  assumes "c \<in> set (trace (reached (prepare s)))"
  shows "c \<in> set (trace (reached (acquire (emit Chdir s))))
     \<or> (\<exists>b s1 n. acquire (emit Chdir s) = Inr (b, s1) \<and> n \<in> set SIZES \<and> n \<noteq> 256
           \<and> c \<in> set (resize_calls b n))"
proof -
  from prepare_reached [of s] consider
    "reached (prepare s) = reached (acquire (emit Chdir s))"
    | b s1 where "acquire (emit Chdir s) = Inr (b, s1)"
      "reached (prepare s) = reached (resize_loop b SIZES (print GeneratingSizes s1))"
    by blast
  then show ?thesis
  proof cases
    case 1
    with assms show ?thesis by simp
  next
    case 2
    from resize_loop_calls [of b SIZES "print GeneratingSizes s1"] assms 2(2)
    have "c \<in> set (trace s1) \<or> (\<exists>n \<in> set SIZES - {256}. c \<in> set (resize_calls b n))"
      by auto
    moreover have "trace (reached (acquire (emit Chdir s))) = trace s1"
      by (simp add: 2(1))
    ultimately show ?thesis using 2(1) by auto
  qed
qed

lemma main_calls:
  assumes "c \<in> set (trace (reached (main s)))"
  shows "c \<in> set (trace (reached (prepare s)))
     \<or> (\<exists>n \<in> set SIZES. c \<in> set (probe_calls n))
     \<or> (\<exists>im sizes. c = SaveIco im ico_path sizes)"
proof -
  from main_reached [of s] consider
    "reached (main s) = reached (prepare s)"
    | u s2 where "prepare s = Inr (u, s2)"
      "trace (reached (main s)) = trace (reached (package s2))"
    by auto
  then show ?thesis
  proof cases
    case 1
    with assms show ?thesis by simp
  next
    case 2
    have "reached (prepare s) = s2" by (simp add: 2(1))
    with package_calls [of c s2] assms 2(2) show ?thesis by simp
  qed
qed

lemma main_other_files:
  assumes "p \<noteq> ico_path"
  shows "files (reached (main s)) p = files (reached (prepare s)) p"
proof -
  from main_reached [of s] consider
    "reached (main s) = reached (prepare s)"
    | u s2 where "prepare s = Inr (u, s2)"
      "files (reached (main s)) = files (reached (package s2))"
    by auto
  then show ?thesis
  proof cases
    case 1
    then show ?thesis by simp
  next
    case 2
    have "reached (prepare s) = s2" by (simp add: 2(1))
    with package_other_files [OF assms, of s2] 2(2) show ?thesis by simp
  qed
qed

lemma prepare_base_file:
  "files (reached (prepare s)) base_image_path =
     (if files s base_image_path = None then Some (Raster simple_icon)
      else files s base_image_path)"
proof -
  have keep: "files (reached (resize_loop b SIZES t)) base_image_path = files t base_image_path"
    for b t
    by (rule resize_loop_other_files) (auto simp add: base_image_path_png dest: png_path_inj)
  have "files (reached (prepare s)) base_image_path
      = files (reached (acquire (emit Chdir s))) base_image_path"
    using prepare_reached [of s] keep by auto
  then show ?thesis by (simp add: acquire_files)
qed

subsection \<open>Traces only grow\<close>

lemma resize_loop_keeps: "set (trace s) \<subseteq> set (trace (reached (resize_loop b ns s)))"
proof (induction ns arbitrary: s)
  case Nil
  show ?case by simp
next
  case (Cons n rest)
  show ?case
  proof (cases "n = 256")
    case True
    with Cons.IH [of s] show ?thesis by (simp add: resize_loop_skip)
  next
    case False
    let ?saved = "image_save (resize b (n, n) LANCZOS) (png_path n) (emit (Resize b (n, n) LANCZOS) s)"
    have here: "set (trace s) \<subseteq> set (trace (reached ?saved))" by auto
    show ?thesis
    proof (cases ?saved)
      case (Inl a)
      then obtain e s1 where eq: "?saved = Inl (e, s1)" by (cases a) simp
      from here [unfolded eq] False eq show ?thesis by (simp add: resize_loop_step)
    next
      case (Inr a)
      then obtain v s2 where eq: "?saved = Inr (v, s2)" by (cases a) simp
      from here [unfolded eq] have "set (trace s) \<subseteq> set (trace (print (Wrote n) s2))" by simp
      also note Cons.IH [of "print (Wrote n) s2"]
      finally show ?thesis using False eq by (simp add: resize_loop_step)
    qed
  qed
qed

lemma collect_keeps: "set (trace s) \<subseteq> set (trace (reached (collect ns acc s)))"
proof (induction ns arbitrary: acc s)
  case Nil
  show ?case by simp
next
  case (Cons n rest)
  show ?case
  proof (cases "files s (png_path n)")
    case None
    have "set (trace s) \<subseteq> set (trace (emit (Exists (png_path n)) s))" by auto
    also note Cons.IH [where acc = acc and s = "emit (Exists (png_path n)) s"]
    finally show ?thesis using None by (simp add: collect_absent)
  next
    case (Some e)
    let ?opened = "image_open (png_path n) (emit (Exists (png_path n)) s)"
    have here: "set (trace s) \<subseteq> set (trace (reached ?opened))" by auto
    show ?thesis
    proof (cases ?opened)
      case (Inl a)
      then obtain err s1 where eq: "?opened = Inl (err, s1)" by (cases a) simp
      from here [unfolded eq] Some eq show ?thesis by (simp add: collect_present)
    next
      case (Inr a)
      then obtain im s2 where eq: "?opened = Inr (im, s2)" by (cases a) simp
      from here [unfolded eq] have "set (trace s) \<subseteq> set (trace s2)" by simp
      also note Cons.IH [where acc = "acc @ [im]" and s = s2]
      finally show ?thesis using Some eq by (simp add: collect_present)
    qed
  qed
qed

lemma package_keeps: "set (trace s) \<subseteq> set (trace (reached (package s)))"
proof -
  have "set (trace s) \<subseteq> set (trace (reached (collect SIZES [] (print GeneratingIco s))))"
    using collect_keeps [where s = "print GeneratingIco s" and ns = SIZES and acc = "[]"] by simp
  with package_reached [of s] show ?thesis by auto
qed

lemma prepare_keeps:
  "set (trace (reached (acquire (emit Chdir s)))) \<subseteq> set (trace (reached (prepare s)))"
proof -
  from prepare_reached [of s] consider
    "reached (prepare s) = reached (acquire (emit Chdir s))"
    | b s1 where "acquire (emit Chdir s) = Inr (b, s1)"
      "reached (prepare s) = reached (resize_loop b SIZES (print GeneratingSizes s1))"
    by blast
  then show ?thesis
  proof cases
    case 1
    then show ?thesis by simp
  next
    case 2
    have "trace (reached (acquire (emit Chdir s))) = trace (print GeneratingSizes s1)"
      by (simp add: 2(1))
    with resize_loop_keeps [of "print GeneratingSizes s1" b SIZES] 2(2) show ?thesis by simp
  qed
qed

lemma main_keeps: "set (trace (reached (prepare s))) \<subseteq> set (trace (reached (main s)))"
proof -
  from main_reached [of s] consider
    "reached (main s) = reached (prepare s)"
    | u s2 where "prepare s = Inr (u, s2)"
      "trace (reached (main s)) = trace (reached (package s2))"
    by auto
  then show ?thesis
  proof cases
    case 1
    then show ?thesis by simp
  next
    case 2
    have "trace (reached (prepare s)) = trace s2" by (simp add: 2(1))
    with package_keeps [of s2] 2(2) show ?thesis by simp
  qed
qed

subsection \<open>Runs that return\<close>

lemma prepare_files:
  assumes "acquire (emit Chdir s) = Inr (b, s1)" and "prepare s = Inr (u, s2)"
  shows "files s2 (png_path 256) = Some (Raster b)"
    and "n \<in> set SIZES \<Longrightarrow> n \<noteq> 256 \<Longrightarrow>
           files s2 (png_path n) = Some (Raster (resize b (n, n) LANCZOS))"
proof -
  from assms have loop: "resize_loop b SIZES (print GeneratingSizes s1) = Inr (u, s2)"
    by (simp add: prepare_def)
  show "files s2 (png_path n) = Some (Raster (resize b (n, n) LANCZOS))"
    if "n \<in> set SIZES" "n \<noteq> 256"
    using resize_loop_files [OF loop that] .
  have "files (reached (resize_loop b SIZES (print GeneratingSizes s1))) (png_path 256)
      = files (print GeneratingSizes s1) (png_path 256)"
    by (rule resize_loop_other_files) (auto dest: png_path_inj)
  with loop acquire_Inr(1) [OF assms(1)] show "files s2 (png_path 256) = Some (Raster b)"
    by (simp add: base_image_path_png)
qed

lemma prepare_ok:
  assumes "files s base_image_path = None \<or> (\<exists>im. files s base_image_path = Some (Raster im))"
    and "\<forall>n \<in> set SIZES. n \<noteq> 256 \<longrightarrow> files s (png_path n) \<noteq> Some Directory"
  shows "\<exists>s2. prepare s = Inr ((), s2)"
proof -
  from assms(1) obtain b s1 where acquired: "acquire (emit Chdir s) = Inr (b, s1)"
  proof
    assume "files s base_image_path = None"
    then have "files (emit Chdir s) base_image_path = None" by simp
    from acquire_absent [OF this] that show ?thesis by blast
  next
    assume "\<exists>im. files s base_image_path = Some (Raster im)"
    then obtain im where "files (emit Chdir s) base_image_path = Some (Raster im)" by auto
    from acquire_Raster [OF this] that show ?thesis by blast
  qed
  have "files s1 (png_path n) \<noteq> Some Directory" if "n \<in> set SIZES" "n \<noteq> 256" for n
  proof -
    have "files (reached (acquire (emit Chdir s))) (png_path n) = files s (png_path n)"
      using that by (auto simp add: acquire_files base_image_path_png dest: png_path_inj)
    with acquired assms(2) that show ?thesis by simp
  qed
  then have "\<forall>n \<in> set SIZES. n \<noteq> 256 \<longrightarrow>
      files (print GeneratingSizes s1) (png_path n) \<noteq> Some Directory"
    by simp
  from resize_loop_ok [OF this, of b] acquired show ?thesis
    by (simp add: prepare_def)
qed

lemma package_after_prepare:
  assumes "acquire (emit Chdir s) = Inr (b, s1)" and "prepare s = Inr (u, s2)"
    and "package s2 = Inr (w, s3)"
  shows "files s3 = (files s2)(ico_path \<mapsto>
           Container (ico_frames (variant b 16) (map (\<lambda>n. dims (variant b n)) SIZES)))"
proof -
  have all: "\<forall>n \<in> set SIZES. files s2 (png_path n) = Some (Raster (variant b n))"
    using prepare_files [OF assms(1,2)] by (auto simp add: variant_def)
  show ?thesis
  proof (cases "files s2 ico_path = Some Directory")
    case True
    from all have "\<forall>n \<in> set SIZES.
        files (print GeneratingIco s2) (png_path n) = Some (Raster (variant b n))"
      by simp
    from collect_all [OF this, of "[]"] obtain t where
      collected: "collect SIZES [] (print GeneratingIco s2) = Inr (map (variant b) SIZES, t)"
      and t: "files t = files s2"
      by auto
    from True t have "files t ico_path = Some Directory" by simp
    then have "\<exists>e t'. image_save_ico im ico_path sizes t = Inl (e, t')" for im sizes
      by (simp add: image_save_ico_def Let_def)
    then obtain e t' where
      "image_save_ico (variant b 16) ico_path (map dims (map (variant b) SIZES)) t = Inl (e, t')"
      by blast
    with collected have "package s2 = Inl (e, t')"
      by (simp add: package_def SIZES_def)
    with assms(3) show ?thesis by simp
  next
    case False
    from package_all [OF all False] assms(3) show ?thesis by auto
  qed
qed

lemma main_ok:
  assumes "files s base_image_path = None \<or> (\<exists>im. files s base_image_path = Some (Raster im))"
    and "\<forall>n \<in> set SIZES. n \<noteq> 256 \<longrightarrow> files s (png_path n) \<noteq> Some Directory"
    and "files s ico_path \<noteq> Some Directory"
  shows "\<exists>s'. main s = Inr ((), s')"
proof -
  from prepare_ok [OF assms(1,2)] obtain s2 where prepared: "prepare s = Inr ((), s2)" by blast
  then obtain b s1 where acquired: "acquire (emit Chdir s) = Inr (b, s1)"
    by (rule prepare_Inr)
  have all: "\<forall>n \<in> set SIZES. files s2 (png_path n) = Some (Raster (variant b n))"
    using prepare_files [OF acquired prepared] by (auto simp add: variant_def)
  have "files (reached (prepare s)) ico_path = files s ico_path"
  proof -
    have a: "files (reached (acquire (emit Chdir s))) ico_path = files s ico_path"
      by (simp add: acquire_files base_image_path_def ico_path_def)
    have "files (reached (resize_loop b SIZES t)) ico_path = files t ico_path" for t
      by (rule resize_loop_other_files) (simp add: ico_path_not_png)
    from this [of "print GeneratingSizes s1"] a acquired show ?thesis
      by (simp add: prepare_def)
  qed
  with prepared assms(3) have "files s2 ico_path \<noteq> Some Directory" by simp
  from package_all [OF all this] prepared show ?thesis
    by (auto simp add: main_def finish_def)
qed

section \<open>The claims\<close>

subsection \<open>The capability check\<close>

text \<open>
  C7. Without Pillow the program ends with exit status 1 after printing the two lines
  that say what is missing and how to install it; it makes no library or file-system
  call (the trace is as it was) and leaves every file as it was.
\<close>

theorem script_without_pillow:
  "exit_status (script False s) = 1
   \<and> stdout (final (script False s)) = stdout s @ [NeedPillow, RunPipInstall]
   \<and> trace (final (script False s)) = trace s
   \<and> files (final (script False s)) = files s"
  by (simp add: script_def print_def)

subsection \<open>The calls of a whole run\<close>

lemma start_simps [simp]: "files (start fs) = fs" "trace (start fs) = []" "stdout (start fs) = []"
  by (simp_all add: start_def)

lemma main_call_cases:
  assumes "c \<in> set (trace (reached (main s)))"
  shows "c \<in> set (trace (reached (acquire (emit Chdir s))))
     \<or> (\<exists>b s1 n. acquire (emit Chdir s) = Inr (b, s1) \<and> n \<in> set SIZES \<and> n \<noteq> 256
           \<and> c \<in> set (resize_calls b n))
     \<or> (\<exists>n \<in> set SIZES. c \<in> set (probe_calls n))
     \<or> (\<exists>im sizes. c = SaveIco im ico_path sizes)"
  using main_calls [OF assms] prepare_calls [of c s] by blast

lemma main_resize:
  assumes "Resize im bx f \<in> set (trace (reached (main s)))"
  shows "Resize im bx f \<in> set (trace s)
     \<or> (\<exists>s1 n. acquire (emit Chdir s) = Inr (im, s1) \<and> n \<in> set SIZES \<and> n \<noteq> 256
           \<and> bx = (n, n) \<and> f = LANCZOS)"
  using main_call_cases [OF assms]
  by (auto simp add: acquire_trace resize_calls_def probe_calls_def split: if_splits)

lemma main_save:
  assumes "Save im p \<in> set (trace (reached (main s)))"
  shows "Save im p \<in> set (trace s)
     \<or> (files s base_image_path = None \<and> im = simple_icon \<and> p = base_image_path)
     \<or> (\<exists>n \<in> set SIZES. n \<noteq> 256 \<and> p = png_path n)"
  using main_call_cases [OF assms]
  by (auto simp add: acquire_trace resize_calls_def probe_calls_def split: if_splits)

lemma main_save_ico:
  assumes "SaveIco im p sizes \<in> set (trace (reached (main s)))"
  shows "SaveIco im p sizes \<in> set (trace s) \<or> p = ico_path"
  using main_call_cases [OF assms]
  by (auto simp add: acquire_trace resize_calls_def probe_calls_def split: if_splits)

lemma main_new_image:
  assumes "NewImage m b k \<in> set (trace (reached (main s)))"
  shows "NewImage m b k \<in> set (trace s) \<or> files s base_image_path = None"
  using main_call_cases [OF assms]
  by (auto simp add: acquire_trace resize_calls_def probe_calls_def split: if_splits)

lemma main_draw:
  assumes "Draw sh \<in> set (trace (reached (main s)))"
  shows "Draw sh \<in> set (trace s) \<or> files s base_image_path = None"
  using main_call_cases [OF assms]
  by (auto simp add: acquire_trace resize_calls_def probe_calls_def split: if_splits)

lemma base_image_path_not_ico: "base_image_path \<noteq> ico_path"
  by (simp add: base_image_path_def ico_path_def)

lemma main_base_file:
  "files (reached (main s)) base_image_path =
     (if files s base_image_path = None then Some (Raster simple_icon)
      else files s base_image_path)"
  using main_other_files [OF base_image_path_not_ico, of s]
  by (simp add: prepare_base_file)

lemma main_starts_with_acquire:
  "set (trace (reached (acquire (emit Chdir s)))) \<subseteq> set (trace (reached (main s)))"
  using prepare_keeps [of s] main_keeps [of s] by blast

subsection \<open>The native size\<close>

text \<open>
  C4. In every run, returning or raising, no call of \<open>resize\<close> asks for a box with a side
  of 256; and whenever the part of \<open>main\<close> before the packaging phase has returned, a
  decodable file is at the per-size path of 256.
\<close>

theorem native_size_never_resized:
  "(\<forall>im w h f. Resize im (w, h) f \<in> set (trace (reached (main (start fs))))
       \<longrightarrow> w \<noteq> 256 \<and> h \<noteq> 256)
   \<and> (\<forall>u s2. prepare (start fs) = Inr (u, s2)
       \<longrightarrow> (\<exists>b. files s2 (png_path 256) = Some (Raster b)))"
proof (intro conjI allI impI)
  fix im w h f
  assume "Resize im (w, h) f \<in> set (trace (reached (main (start fs))))"
  from main_resize [OF this] show "w \<noteq> 256" and "h \<noteq> 256" by auto
next
  fix u s2
  assume prepared: "prepare (start fs) = Inr (u, s2)"
  then obtain b s1 where "acquire (emit Chdir (start fs)) = Inr (b, s1)"
    by (rule prepare_Inr)
  from prepare_files(1) [OF this prepared]
  show "\<exists>b. files s2 (png_path 256) = Some (Raster b)" ..
qed

theorem native_size_never_resized_witness:
  "Resize simple_icon (256, 256) LANCZOS \<notin> set (trace (reached (main (start Map.empty))))
   \<and> (\<exists>s2 b. prepare (start Map.empty) = Inr ((), s2)
        \<and> files s2 (png_path 256) = Some (Raster b))"
proof -
  have "\<exists>s2. prepare (start Map.empty) = Inr ((), s2)"
    by (rule prepare_ok) simp_all
  then obtain s2 where "prepare (start Map.empty) = Inr ((), s2)" ..
  with native_size_never_resized [of Map.empty] show ?thesis by blast
qed

subsection \<open>A base image that is already there\<close>

text \<open>
  C5. When something is at the fixed path at the start, acquisition only asks whether it
  exists and opens it, and changes no file; the whole run never saves to that path and
  leaves its content as it was; and the source of every \<open>resize\<close> call of the run is
  the image that the file at the fixed path decodes to.
\<close>

theorem existing_base_is_only_read:
  assumes "fs base_image_path \<noteq> None"
  shows "trace (reached (acquire (emit Chdir (start fs))))
        = [Chdir, Exists base_image_path, Open base_image_path]
    \<and> files (reached (acquire (emit Chdir (start fs)))) = fs
    \<and> (\<forall>im. Save im base_image_path \<notin> set (trace (reached (main (start fs)))))
    \<and> (\<forall>im sizes. SaveIco im base_image_path sizes \<notin> set (trace (reached (main (start fs)))))
    \<and> files (reached (main (start fs))) base_image_path = fs base_image_path
    \<and> (\<forall>src bx f. Resize src bx f \<in> set (trace (reached (main (start fs))))
         \<longrightarrow> fs base_image_path = Some (Raster src))"
proof (intro conjI allI impI)
  show "trace (reached (acquire (emit Chdir (start fs))))
        = [Chdir, Exists base_image_path, Open base_image_path]"
    using assms by (simp add: acquire_trace)
  show "files (reached (acquire (emit Chdir (start fs)))) = fs"
    using assms by (auto simp add: acquire_files)
  show "files (reached (main (start fs))) base_image_path = fs base_image_path"
    using assms by (simp add: main_base_file)
next
  fix im
  show "Save im base_image_path \<notin> set (trace (reached (main (start fs))))"
  proof
    assume "Save im base_image_path \<in> set (trace (reached (main (start fs))))"
    from main_save [OF this] assms show False
      by (auto simp add: base_image_path_png dest: png_path_inj)
  qed
next
  fix im sizes
  show "SaveIco im base_image_path sizes \<notin> set (trace (reached (main (start fs))))"
  proof
    assume "SaveIco im base_image_path sizes \<in> set (trace (reached (main (start fs))))"
    from main_save_ico [OF this] show False
      by (simp add: base_image_path_def ico_path_def)
  qed
next
  fix src bx f
  assume "Resize src bx f \<in> set (trace (reached (main (start fs))))"
  from main_resize [OF this] obtain s1 where "acquire (emit Chdir (start fs)) = Inr (src, s1)"
    by auto
  from acquire_Inr(3) [OF this] assms show "fs base_image_path = Some (Raster src)"
    by simp
qed

theorem existing_base_is_only_read_witness:
  "photo_dir base_image_path \<noteq> None
   \<and> Save photo base_image_path \<notin> set (trace (reached (main (start photo_dir))))
   \<and> files (reached (main (start photo_dir))) base_image_path = Some (Raster photo)"
proof -
  have "photo_dir base_image_path \<noteq> None" by (simp add: photo_dir_def)
  with existing_base_is_only_read [of photo_dir] show ?thesis by (simp add: photo_dir_def)
qed

subsection \<open>Two runs in a row\<close>

text \<open>
  C6. When nothing is at the fixed path, the first run draws the 256 by 256 image and
  saves it there, and the file is there when the run ends, however it ends. A second run
  on the directory the first one left opens that file, creates and draws no image, and
  does not save to the fixed path.
\<close>

theorem second_run_reuses_saved_icon:
  assumes "fs base_image_path = None"
  shows "files (reached (main (start fs))) base_image_path = Some (Raster simple_icon)
    \<and> dims simple_icon = (256, 256)
    \<and> NewImage ''RGB'' (256, 256) (102, 126, 234) \<in> set (trace (reached (main (start fs))))
    \<and> Save simple_icon base_image_path \<in> set (trace (reached (main (start fs))))
    \<and> Open base_image_path
        \<in> set (trace (reached (main (start (files (reached (main (start fs))))))))
    \<and> (\<forall>m b k. NewImage m b k
        \<notin> set (trace (reached (main (start (files (reached (main (start fs)))))))))
    \<and> (\<forall>sh. Draw sh
        \<notin> set (trace (reached (main (start (files (reached (main (start fs)))))))))
    \<and> (\<forall>im. Save im base_image_path
        \<notin> set (trace (reached (main (start (files (reached (main (start fs)))))))))"
proof -
  let ?fs' = "files (reached (main (start fs)))"
  have first: "?fs' base_image_path = Some (Raster simple_icon)"
    using assms by (simp add: main_base_file)
  then have present: "?fs' base_image_path \<noteq> None" by simp
  have a1: "set (trace (reached (acquire (emit Chdir (start fs)))))
      \<subseteq> set (trace (reached (main (start fs))))"
    by (rule main_starts_with_acquire)
  have a2: "set (trace (reached (acquire (emit Chdir (start ?fs')))))
      \<subseteq> set (trace (reached (main (start ?fs'))))"
    by (rule main_starts_with_acquire)
  have "NewImage ''RGB'' (256, 256) (102, 126, 234) \<in> set (trace (reached (acquire (emit Chdir (start fs)))))"
    and "Save simple_icon base_image_path \<in> set (trace (reached (acquire (emit Chdir (start fs)))))"
    using assms by (simp_all add: acquire_trace)
  with a1 have synth: "NewImage ''RGB'' (256, 256) (102, 126, 234) \<in> set (trace (reached (main (start fs))))"
    and saved: "Save simple_icon base_image_path \<in> set (trace (reached (main (start fs))))"
    by blast+
  have "Open base_image_path \<in> set (trace (reached (acquire (emit Chdir (start ?fs')))))"
    using present by (simp add: acquire_trace)
  with a2 have opened: "Open base_image_path \<in> set (trace (reached (main (start ?fs'))))"
    by blast
  have no_new: "NewImage m b k \<notin> set (trace (reached (main (start ?fs'))))" for m b k
    using main_new_image [of m b k "start ?fs'"] present by auto
  have no_draw: "Draw sh \<notin> set (trace (reached (main (start ?fs'))))" for sh
    using main_draw [of sh "start ?fs'"] present by auto
  have no_save: "Save im base_image_path \<notin> set (trace (reached (main (start ?fs'))))" for im
    using main_save [of im base_image_path "start ?fs'"] present
    by (auto simp add: base_image_path_png dest: png_path_inj)
  from first synth saved opened no_new no_draw no_save show ?thesis by simp
qed

theorem second_run_reuses_saved_icon_witness:
  "(Map.empty :: path \<rightharpoonup> entry) base_image_path = None
   \<and> files (reached (main (start Map.empty))) base_image_path = Some (Raster simple_icon)
   \<and> Open base_image_path
        \<in> set (trace (reached (main (start (files (reached (main (start Map.empty))))))))"
  using second_run_reuses_saved_icon [of Map.empty] by simp

lemma returned_simps [simp]: "returned (Inl (e, s)) = None" "returned (Inr (x, s)) = Some x"
  by (simp_all add: returned_def)

lemma exit_code_simps [simp]: "exit_code (Inl e) = 1" "exit_code (Inr x) = 0"
  by (simp_all add: exit_code_def)

lemma photo_dir_simps [simp]:
  "photo_dir base_image_path = Some (Raster photo)"
  "p \<noteq> base_image_path \<Longrightarrow> photo_dir p = None"
  by (simp_all add: photo_dir_def)

lemma photo_dir_runs: "\<exists>s'. main (start photo_dir) = Inr ((), s')"
proof (rule main_ok)
  show "files (start photo_dir) base_image_path = None
      \<or> (\<exists>im. files (start photo_dir) base_image_path = Some (Raster im))"
    by simp
  show "\<forall>n \<in> set SIZES. n \<noteq> 256 \<longrightarrow> files (start photo_dir) (png_path n) \<noteq> Some Directory"
    by (simp add: photo_dir_def)
  show "files (start photo_dir) ico_path \<noteq> Some Directory"
    using base_image_path_not_ico by simp
qed

lemma empty_dir_runs: "\<exists>s'. main (start Map.empty) = Inr ((), s')"
  by (rule main_ok) simp_all

subsection \<open>The base image after acquisition\<close>

text \<open>
  C3, as stated, fails: a file of 512 by 512 pixels at the fixed path is loaded as it
  is, and the base image in memory then has its dimensions.
\<close>

theorem acquire_keeps_other_dimensions:
  "returned (acquire (start photo_dir)) = Some photo \<and> dims photo \<noteq> (256, 256)"
proof -
  have "files (start photo_dir) base_image_path = Some (Raster photo)" by simp
  from acquire_Raster [OF this]
  have "returned (acquire (start photo_dir)) = Some photo"
    by (metis returned_simps(2))
  then show ?thesis by (simp add: photo_def)
qed

text \<open>
  C3, amended. When the acquisition phase has returned, the file at the fixed path
  decodes to the base image in memory. If nothing was at the fixed path, that image is
  the drawn one, of 256 by 256 pixels; otherwise it is the image of the file that was
  there, whatever its dimensions, and no file has changed.
\<close>

theorem acquire_base_image:
  assumes "acquire s = Inr (b, s')"
  shows "files s' base_image_path = Some (Raster b)
    \<and> (if files s base_image_path = None
        then b = simple_icon \<and> dims b = (256, 256)
        else files s base_image_path = Some (Raster b) \<and> files s' = files s)"
proof -
  have reached: "reached (acquire s) = s'" by (simp add: assms)
  show ?thesis
  proof (cases "files s base_image_path = None")
    case True
    from acquire_Inr(1,2) [OF assms] True show ?thesis by simp
  next
    case False
    from acquire_present_reached(1) [OF False] reached have "files s' = files s" by simp
    with acquire_Inr(1,3) [OF assms] False show ?thesis by simp
  qed
qed

theorem acquire_base_image_witness:
  "\<exists>s'. acquire (start Map.empty) = Inr (simple_icon, s')
      \<and> files s' base_image_path = Some (Raster simple_icon)
      \<and> dims simple_icon = (256, 256)"
proof -
  have "files (start Map.empty) base_image_path = None" by simp
  from acquire_absent [OF this] obtain s' where
    acquired: "acquire (start Map.empty) = Inr (simple_icon, s')"
    by blast
  from acquire_base_image [OF acquired] acquired show ?thesis by simp
qed

subsection \<open>The per-size files after a run\<close>

text \<open>
  C2, as stated, fails for the size 256: with a file of 512 by 512 pixels at
  \<open>icon-256.png\<close> the run exits with status 0 and that file is still the one at the
  per-size path of 256.
\<close>

theorem run_keeps_other_dimensions:
  "exit_status (script True (start photo_dir)) = 0
   \<and> files (final (script True (start photo_dir))) (png_path 256) = Some (Raster photo)
   \<and> dims photo \<noteq> (256, 256)"
proof -
  from photo_dir_runs obtain s' where "main (start photo_dir) = Inr ((), s')" ..
  then have "exit_status (script True (start photo_dir)) = 0"
    by (simp add: script_def)
  moreover have "files (reached (main (start photo_dir))) base_image_path = Some (Raster photo)"
    by (simp add: main_base_file)
  ultimately show ?thesis
    by (simp add: script_def base_image_path_png photo_def)
qed

text \<open>
  C2, amended. After a run of \<open>main\<close> that returns, every size of \<open>SIZES\<close> other than
  256 has a decodable file at its per-size path whose dimensions are that size squared;
  and a decodable file is at the per-size path of 256: of 256 by 256 pixels if nothing
  was at that path when the run started, and otherwise the file that was there.
\<close>

theorem sizes_after_run:
  assumes "main s = Inr (u, s')"
  shows "(\<forall>n \<in> set SIZES. n \<noteq> 256 \<longrightarrow>
            (\<exists>im. files s' (png_path n) = Some (Raster im) \<and> dims im = (n, n)))
    \<and> (\<exists>b. files s' (png_path 256) = Some (Raster b)
          \<and> (if files s (png_path 256) = None then dims b = (256, 256)
              else files s (png_path 256) = Some (Raster b)))"
proof -
  from assms obtain v s2 w s3 where prepared: "prepare s = Inr (v, s2)"
    and packaged: "package s2 = Inr (w, s3)" and s': "s' = closing s3"
    by (rule main_Inr)
  from prepared obtain b s1 where acquired: "acquire (emit Chdir s) = Inr (b, s1)"
    by (rule prepare_Inr)
  from package_after_prepare [OF acquired prepared packaged] s'
  have same: "files s' (png_path n) = files s2 (png_path n)" for n
    by (simp add: ico_path_not_png)
  have small: "\<exists>im. files s' (png_path n) = Some (Raster im) \<and> dims im = (n, n)"
    if "n \<in> set SIZES" "n \<noteq> 256" for n
    using prepare_files(2) [OF acquired prepared that] same [of n] by simp
  have "files s' (png_path 256) = Some (Raster b)"
    using prepare_files(1) [OF acquired prepared] same [of 256] by simp
  moreover have "if files s (png_path 256) = None then dims b = (256, 256)
      else files s (png_path 256) = Some (Raster b)"
    using acquire_Inr(2,3) [OF acquired] by (auto simp add: base_image_path_png [symmetric])
  ultimately show ?thesis using small by blast
qed

theorem sizes_after_run_witness:
  "\<exists>s'. main (start Map.empty) = Inr ((), s')
      \<and> list_all (\<lambda>n. \<exists>im. files s' (png_path n) = Some (Raster im) \<and> dims im = (n, n)) SIZES"
proof -
  from empty_dir_runs obtain s' where run: "main (start Map.empty) = Inr ((), s')" ..
  from sizes_after_run [OF run]
  have "list_all (\<lambda>n. \<exists>im. files s' (png_path n) = Some (Raster im) \<and> dims im = (n, n)) SIZES"
    by (auto simp add: SIZES_def)
  with run show ?thesis by blast
qed

subsection \<open>The resize loop\<close>




subsection \<open>Packaging\<close>

text \<open>
  C8. When none of the six per-size paths exists at packaging time, the rest of \<open>main\<close>
  returns, so the process exits with status 0: the packaging phase collects no image,
  makes no call but the six existence checks, leaves every file as it was (so it
  creates no container), and prints only its heading.
\<close>

theorem empty_packaging_is_skipped:
  assumes "\<forall>n \<in> set SIZES. files s (png_path n) = None"
  shows "exit_code (finish s) = 0
    \<and> returned (collect SIZES [] (print GeneratingIco s)) = Some []
    \<and> files (reached (finish s)) = files s
    \<and> trace (reached (finish s)) = trace s @ map (\<lambda>n. Exists (png_path n)) SIZES
    \<and> stdout (reached (finish s))
        = stdout s @ [GeneratingIco, Finished, OutputDirectory, ListPngs, ListIco]"
proof -
  from assms have "\<forall>n \<in> set SIZES. files (print GeneratingIco s) (png_path n) = None" by simp
  from collect_none [OF this, of "[]"] obtain s1 where
    collected: "collect SIZES [] (print GeneratingIco s) = Inr ([], s1)"
    and s1: "files s1 = files s" "trace s1 = trace s @ map (\<lambda>n. Exists (png_path n)) SIZES"
      "stdout s1 = stdout s @ [GeneratingIco]"
    by auto
  from collected have "finish s = Inr ((), closing s1)"
    by (simp add: finish_def package_def)
  with collected s1 show ?thesis by simp
qed

theorem empty_packaging_is_skipped_witness:
  "list_all (\<lambda>n. files (start Map.empty) (png_path n) = None) SIZES
   \<and> exit_code (finish (start Map.empty)) = 0
   \<and> files (reached (finish (start Map.empty))) ico_path = None"
  using empty_packaging_is_skipped [of "start Map.empty"]
  by (simp add: SIZES_def)

subsection \<open>The container\<close>

lemma ico_frames_mode: "fr \<in> set (ico_frames im sizes) \<Longrightarrow> frame_mode fr = mode im"
  by (auto simp add: ico_frames_def)

lemma variant_simps [simp]:
  "variant b 256 = b" "n \<noteq> 256 \<Longrightarrow> variant b n = resize b (n, n) LANCZOS"
  "mode (variant b n) = mode b"
  by (simp_all add: variant_def)

lemma ico_frames_of_six:
  assumes "dims im = (16, 16)"
  shows "ico_frames im [(16, 16), (32, 32), (48, 48), (64, 64), (128, 128), (256, 256)]
       = [Provided im]"
  using assms by (simp add: ico_frames_def ico_fits_def)

lemma ico_frames_card:
  "length (ico_frames im sizes) = card {b \<in> set sizes. ico_fits im b}"
proof -
  have "distinct (filter (ico_fits im) (sort (remdups sizes)))" by simp
  then have "length (filter (ico_fits im) (sort (remdups sizes)))
      = card (set (filter (ico_fits im) (sort (remdups sizes))))"
    by (rule distinct_card [symmetric])
  also have "set (filter (ico_fits im) (sort (remdups sizes))) = {b \<in> set sizes. ico_fits im b}"
    by auto
  finally show ?thesis by (simp add: ico_frames_def)
qed

lemma ico_frames_length:
  assumes "dims im = (16, 16)"
  shows "length (ico_frames im [(16, 16), (32, 32), (48, 48), (64, 64), (128, 128), d]) \<le> 2"
proof -
  have "{b \<in> set [(16, 16), (32, 32), (48, 48), (64, 64), (128, 128), d]. ico_fits im b}
      \<subseteq> {(16, 16), d}"
    using assms by (auto simp add: ico_fits_def)
  then have "card {b \<in> set [(16, 16), (32, 32), (48, 48), (64, 64), (128, 128), d]. ico_fits im b}
      \<le> card {(16, 16), d}"
    by (rule card_mono [rotated]) simp
  also have "\<dots> \<le> 2" by (simp add: card_insert_if)
  finally show ?thesis by (simp only: ico_frames_card)
qed

lemma container_after_run:
  assumes "main s = Inr (u, s')"
  shows "\<exists>b. files s' (png_path 256) = Some (Raster b)
       \<and> files s' ico_path = Some (Container (ico_frames (resize b (16, 16) LANCZOS)
            [(16, 16), (32, 32), (48, 48), (64, 64), (128, 128), dims b]))"
proof -
  from assms obtain v s2 w s3 where prepared: "prepare s = Inr (v, s2)"
    and packaged: "package s2 = Inr (w, s3)" and s': "s' = closing s3"
    by (rule main_Inr)
  from prepared obtain b s1 where acquired: "acquire (emit Chdir s) = Inr (b, s1)"
    by (rule prepare_Inr)
  note after = package_after_prepare [OF acquired prepared packaged]
  from after s' prepare_files(1) [OF acquired prepared]
  have "files s' (png_path 256) = Some (Raster b)"
    by (simp add: ico_path_not_png)
  moreover from after s'
  have "files s' ico_path = Some (Container (ico_frames (resize b (16, 16) LANCZOS)
            [(16, 16), (32, 32), (48, 48), (64, 64), (128, 128), dims b]))"
    by (simp add: SIZES_def)
  ultimately show ?thesis by blast
qed

text \<open>
  Whatever was in the directory, the container of a run that returns holds at most two
  images: the image of 16 by 16 pixels, and a thumbnail of it when the file at
  \<open>icon-256.png\<close> is smaller still.
\<close>

lemma container_holds_at_most_two:
  assumes "main s = Inr (u, s')"
  shows "\<exists>frames. files s' ico_path = Some (Container frames) \<and> length frames \<le> 2"
proof -
  from container_after_run [OF assms] obtain b where
    "files s' ico_path = Some (Container (ico_frames (resize b (16, 16) LANCZOS)
            [(16, 16), (32, 32), (48, 48), (64, 64), (128, 128), dims b]))"
    by blast
  moreover have "length (ico_frames (resize b (16, 16) LANCZOS)
            [(16, 16), (32, 32), (48, 48), (64, 64), (128, 128), dims b]) \<le> 2"
    by (rule ico_frames_length) simp
  ultimately show ?thesis by blast
qed

text \<open>
  The packaging phase on its own: when each of the six per-size files decodes to an
  image of its size squared, only the first of them, of 16 by 16 pixels, is embedded.
\<close>

lemma package_embeds_first_only:
  assumes "\<forall>n \<in> set SIZES. files s (png_path n) = Some (Raster (img n)) \<and> dims (img n) = (n, n)"
    and "files s ico_path \<noteq> Some Directory"
  shows "\<exists>s'. package s = Inr ((), s')
       \<and> files s' ico_path = Some (Container [Provided (img 16)])"
proof -
  from assms(1) have all: "\<forall>n \<in> set SIZES. files s (png_path n) = Some (Raster (img n))"
    by simp
  from assms(1) have sizes: "map (\<lambda>n. dims (img n)) SIZES
      = [(16, 16), (32, 32), (48, 48), (64, 64), (128, 128), (256, 256)]"
    and first: "dims (img 16) = (16, 16)"
    by (simp_all add: SIZES_def)
  from package_all [OF all assms(2)] show ?thesis
    by (auto simp add: sizes ico_frames_of_six [OF first])
qed

text \<open>
  C1 does not hold of the code. On a directory that holds nothing the run exits with
  status 0 and leaves all six per-size files, each of its size squared, but the
  container it writes holds one image, the one of 16 by 16 pixels, where C1 asks for
  six, one per file: the script saves the first collected image and passes the other
  five only as sizes, all bigger than that image.
\<close>

theorem fresh_run_container:
  "exit_status (script True (start Map.empty)) = 0
   \<and> list_all (\<lambda>n. files (final (script True (start Map.empty))) (png_path n)
         = Some (Raster (variant simple_icon n))) SIZES
   \<and> files (final (script True (start Map.empty))) ico_path
       = Some (Container [Provided (resize simple_icon (16, 16) LANCZOS)])"
proof -
  from empty_dir_runs obtain s' where run: "main (start Map.empty) = Inr ((), s')" ..
  then obtain v s2 w s3 where prepared: "prepare (start Map.empty) = Inr (v, s2)"
    and packaged: "package s2 = Inr (w, s3)" and s': "s' = closing s3"
    by (rule main_Inr)
  from prepared obtain b s1 where acquired: "acquire (emit Chdir (start Map.empty)) = Inr (b, s1)"
    by (rule prepare_Inr)
  from acquire_Inr(2) [OF acquired] have b: "b = simple_icon" by simp
  note after = package_after_prepare [OF acquired prepared packaged]
  have "files s' (png_path n) = Some (Raster (variant simple_icon n))" if "n \<in> set SIZES" for n
    using prepare_files [OF acquired prepared] that after s' b
    by (cases "n = 256") (simp_all add: ico_path_not_png)
  then have pngs: "list_all (\<lambda>n. files s' (png_path n) = Some (Raster (variant simple_icon n))) SIZES"
    by (simp add: list_all_iff)
  have "ico_frames (variant b 16) (map (\<lambda>n. dims (variant b n)) SIZES)
      = [Provided (resize simple_icon (16, 16) LANCZOS)]"
    using ico_frames_of_six [of "resize simple_icon (16, 16) LANCZOS"]
    by (simp add: b SIZES_def)
  with after s' have "files s' ico_path = Some (Container [Provided (resize simple_icon (16, 16) LANCZOS)])"
    by simp
  with pngs run show ?thesis by (simp add: script_def)
qed

subsection \<open>The mode of the drawn icon\<close>

text \<open>
  C10. The drawn image is an RGB image of 256 by 256 pixels, a mode without an alpha
  channel. When nothing was at the fixed path and \<open>main\<close> has returned, every per-size
  file decodes to an RGB image, and every image in the container is an RGB image.
\<close>

theorem drawn_icon_has_no_alpha:
  assumes "files s base_image_path = None" and "main s = Inr (u, s')"
  shows "mode simple_icon = ''RGB'' \<and> \<not> has_alpha simple_icon \<and> dims simple_icon = (256, 256)
    \<and> (\<forall>n \<in> set SIZES. \<exists>im. files s' (png_path n) = Some (Raster im)
          \<and> mode im = ''RGB'' \<and> \<not> has_alpha im)
    \<and> (\<exists>frames. files s' ico_path = Some (Container frames)
          \<and> (\<forall>fr \<in> set frames. frame_mode fr = ''RGB''))"
proof -
  from assms(2) obtain v s2 w s3 where prepared: "prepare s = Inr (v, s2)"
    and packaged: "package s2 = Inr (w, s3)" and s': "s' = closing s3"
    by (rule main_Inr)
  from prepared obtain b s1 where acquired: "acquire (emit Chdir s) = Inr (b, s1)"
    by (rule prepare_Inr)
  from acquire_Inr(2) [OF acquired] assms(1) have b: "b = simple_icon" by simp
  note after = package_after_prepare [OF acquired prepared packaged]
  have rgb: "mode im = ''RGB'' \<Longrightarrow> \<not> has_alpha im" for im
    by (simp add: has_alpha_def)
  have "\<exists>im. files s' (png_path n) = Some (Raster im) \<and> mode im = ''RGB'' \<and> \<not> has_alpha im"
    if "n \<in> set SIZES" for n
  proof -
    have "files s' (png_path n) = Some (Raster (variant simple_icon n))"
      using prepare_files [OF acquired prepared] that after s' b
      by (cases "n = 256") (simp_all add: ico_path_not_png)
    moreover have "mode (variant simple_icon n) = ''RGB''" by simp
    ultimately show ?thesis using rgb by blast
  qed
  moreover have "\<exists>frames. files s' ico_path = Some (Container frames)
      \<and> (\<forall>fr \<in> set frames. frame_mode fr = ''RGB'')"
    using after s' b by (auto dest: ico_frames_mode)
  ultimately show ?thesis using rgb [of simple_icon] by simp
qed

theorem drawn_icon_has_no_alpha_witness:
  "\<exists>s'. main (start Map.empty) = Inr ((), s')
      \<and> (\<exists>frames. files s' ico_path = Some (Container frames)
            \<and> list_all (\<lambda>fr. frame_mode fr = ''RGB'') frames)"
proof -
  from empty_dir_runs obtain s' where run: "main (start Map.empty) = Inr ((), s')" ..
  have "files (start Map.empty) base_image_path = None" by simp
  from drawn_icon_has_no_alpha [OF this run] run show ?thesis
    by (auto simp add: list_all_iff)
qed

end
